theory Spec2Isabelle
  imports Complex_Main "HOL-Library.Word"
begin

unbundle bit_operations_syntax

section \<open>Virtual time and numeric conventions\<close>

text \<open>
  The simulation scripts run on a discrete-event framework whose classes (\<open>Time\<close>,
  \<open>Simulator\<close>, \<open>DataRate\<close>, \<open>Packet\<close>, \<open>Ipv4StaticRouting\<close>) are not part of the
  repository. A \<open>Time\<close> is modelled as an exact rational number of seconds, and a C++
  \<open>double\<close> as a rational as well, so \<open>Seconds\<close> and \<open>GetSeconds\<close> are the identity.
  Rounding of \<open>double\<close> arithmetic is therefore not modelled; every sign test and every
  comparison of the sources is kept. Unsigned machine integers are words.
\<close>

type_synonym Time = rat

definition Seconds :: "rat \<Rightarrow> Time" where
  "Seconds x = x"

definition GetSeconds :: "Time \<Rightarrow> rat" where
  "GetSeconds t = t"

text \<open>
  Conversion of a \<open>double\<close> to \<open>uint64_t\<close> truncates towards zero. (C++ leaves the
  conversion undefined when the truncated value is not representable; the theorems below
  stay inside the representable range.)
\<close>

definition uint64_of_double :: "rat \<Rightarrow> 64 word" where
  "uint64_of_double x = word_of_int (if 0 \<le> x then \<lfloor>x\<rfloor> else \<lceil>x\<rceil>)"

section \<open>Admission controller: class RateLimiter\<close>

record RateLimiter =
  m_rateLimit :: "64 word"
  m_windowSize :: Time
  m_bytesInWindow :: "64 word"
  m_windowStart :: Time
  m_droppedPackets :: "32 word"

text \<open>The constructor: \<open>DataRate("1Mbps")\<close>, a window of one second, empty counters.\<close>

definition RateLimiter_new :: RateLimiter where
  "RateLimiter_new =
     \<lparr>m_rateLimit = 1000000, m_windowSize = Seconds 1, m_bytesInWindow = 0,
      m_windowStart = Seconds 0, m_droppedPackets = 0\<rparr>"

definition SetLimit :: "64 word \<Rightarrow> RateLimiter \<Rightarrow> RateLimiter" where
  "SetLimit rate s = s\<lparr>m_rateLimit := rate\<rparr>"


text \<open>
  \<open>uint64_t maxBytes = m_rateLimit.GetBitRate() / 8 * m_windowSize.GetSeconds()\<close>:
  an unsigned 64-bit division by 8, then a product in \<open>double\<close>, converted back.
\<close>

definition maxBytes :: "RateLimiter \<Rightarrow> 64 word" where
  "maxBytes s =
     uint64_of_double (of_nat (unat (m_rateLimit s div 8)) * GetSeconds (m_windowSize s))"

text \<open>
  \<open>AllowPacket\<close>. \<open>now\<close> is \<open>Simulator::Now()\<close>, passed in; \<open>sz\<close> is
  \<open>packet->GetSize()\<close>, a \<open>uint32_t\<close> widened to 64 bits for the sum, which wraps modulo
  \<open>2^64\<close>. The sender's address \<open>from\<close> is not read by the method and is left out. The
  result is the returned flag and the new state.
\<close>

definition AllowPacket :: "32 word \<Rightarrow> Time \<Rightarrow> RateLimiter \<Rightarrow> bool \<times> RateLimiter" where
  "AllowPacket sz now s =
     (let s1 = (if now - m_windowStart s \<ge> m_windowSize s
                then s\<lparr>m_bytesInWindow := 0, m_windowStart := now\<rparr>
                else s);
          mx = maxBytes s1
      in if m_bytesInWindow s1 + ucast sz \<le> mx
         then (True, s1\<lparr>m_bytesInWindow := m_bytesInWindow s1 + ucast sz\<rparr>)
         else (False, s1\<lparr>m_droppedPackets := m_droppedPackets s1 + 1\<rparr>))"

text \<open>
  The two stages of \<open>AllowPacket\<close> on their own, to speak about the state between them:
  the reset of an expired window, and the admission test.
\<close>

definition ResetWindow :: "Time \<Rightarrow> RateLimiter \<Rightarrow> RateLimiter" where
  "ResetWindow now s =
     (if now - m_windowStart s \<ge> m_windowSize s
      then s\<lparr>m_bytesInWindow := 0, m_windowStart := now\<rparr>
      else s)"

definition Admit :: "32 word \<Rightarrow> RateLimiter \<Rightarrow> bool \<times> RateLimiter" where
  "Admit sz s =
     (if m_bytesInWindow s + ucast sz \<le> maxBytes s
      then (True, s\<lparr>m_bytesInWindow := m_bytesInWindow s + ucast sz\<rparr>)
      else (False, s\<lparr>m_droppedPackets := m_droppedPackets s + 1\<rparr>))"


text \<open>
  The states a limiter can be in: freshly constructed, after \<open>SetLimit\<close>, after
  \<open>AllowPacket\<close>.
\<close>

inductive reachable :: "RateLimiter \<Rightarrow> bool" where
  reach_new: "reachable RateLimiter_new"
| reach_SetLimit: "reachable s \<Longrightarrow> reachable (SetLimit rate s)"
| reach_AllowPacket: "reachable s \<Longrightarrow> reachable (snd (AllowPacket sz now s))"


section \<open>Traffic generators: classes VoipApplication and DDoSAttacker\<close>

text \<open>
  The two application classes have the same scheduling fields; one record with a tag for
  the class holds the object of either (\<open>m_dataRate\<close> is \<open>m_attackRate\<close> in
  \<open>DDoSAttacker\<close>, which has no \<open>m_nPackets\<close>). The peer address is not modelled. The
  socket belongs to the framework: of its calls only \<open>Send\<close> is observed here (as a
  trace entry); \<open>Bind\<close>, \<open>Connect\<close> and \<open>Close\<close> do not influence scheduling and are
  left out. An \<open>EventId\<close> is the number the scheduler gave the event, or \<open>None\<close> for a
  default-constructed one.
\<close>

datatype GeneratorKind = VoipApplication | DDoSAttacker

record Application =
  gen_kind :: GeneratorKind
  m_packetSize :: "32 word"
  m_nPackets :: "32 word"
  m_dataRate :: "64 word"
  m_sendEvent :: "nat option"
  m_running :: bool
  m_packetsSent :: "32 word"

definition VoipApplication_new :: Application where
  "VoipApplication_new =
     \<lparr>gen_kind = VoipApplication, m_packetSize = 0, m_nPackets = 0, m_dataRate = 0,
      m_sendEvent = None, m_running = False, m_packetsSent = 0\<rparr>"


definition Voip_Setup :: "32 word \<Rightarrow> 32 word \<Rightarrow> 64 word \<Rightarrow> Application \<Rightarrow> Application" where
  "Voip_Setup packetSize nPackets dataRate g =
     g\<lparr>m_packetSize := packetSize, m_nPackets := nPackets, m_dataRate := dataRate\<rparr>"


subsection \<open>The scheduler\<close>

text \<open>
  Modelled from the spec: the framework's scheduling primitive (\<open>Simulator::Schedule\<close>,
  \<open>Simulator::Cancel\<close>, \<open>EventId::IsRunning\<close>, \<open>Simulator::Run\<close>) is not in the repository.
  Events run in non-decreasing order of their time, events of one time in the order in
  which they were scheduled; a cancelled event never runs; an event is running while it
  is pending.
\<close>

datatype Handler = HStart | HStop | HSend

datatype Observation = Sent Time | Stopped Time

record Event =
  ev_time :: Time
  ev_uid :: nat
  ev_handler :: Handler

record Simulator =
  sim_now :: Time
  sim_uid :: nat
  sim_events :: "Event list"
  sim_app :: Application
  sim_trace :: "Observation list"

definition Schedule :: "Time \<Rightarrow> Handler \<Rightarrow> Simulator \<Rightarrow> nat \<times> Simulator" where
  "Schedule delay h w =
     (sim_uid w,
      w\<lparr>sim_events := sim_events w @ [\<lparr>ev_time = sim_now w + delay, ev_uid = sim_uid w, ev_handler = h\<rparr>],
        sim_uid := Suc (sim_uid w)\<rparr>)"

definition Cancel :: "nat option \<Rightarrow> Simulator \<Rightarrow> Simulator" where
  "Cancel ident w =
     (case ident of
        None \<Rightarrow> w
      | Some u \<Rightarrow> w\<lparr>sim_events := filter (\<lambda>e. ev_uid e \<noteq> u) (sim_events w)\<rparr>)"

definition IsRunning :: "nat option \<Rightarrow> Simulator \<Rightarrow> bool" where
  "IsRunning ident w =
     (case ident of
        None \<Rightarrow> False
      | Some u \<Rightarrow> list_ex (\<lambda>e. ev_uid e = u) (sim_events w))"

definition before :: "Event \<Rightarrow> Event \<Rightarrow> bool" where
  "before x y \<longleftrightarrow> ev_time x < ev_time y \<or> (ev_time x = ev_time y \<and> ev_uid x < ev_uid y)"

fun earliest :: "Event \<Rightarrow> Event list \<Rightarrow> Event" where
  "earliest e [] = e"
| "earliest e (x # xs) = earliest (if before x e then x else e) xs"

subsection \<open>The methods of the generators\<close>

text \<open>
  \<open>Time tNext(Seconds(m_packetSize * 8 / static_cast<double>(rate)))\<close>, the same
  expression in both classes: the product is computed in \<open>uint32_t\<close> and wraps, the
  quotient is a \<open>double\<close>. (For a rate of zero the C++ quotient is not a finite number and
  the value of the model carries no meaning; the theorems on pacing assume a non-zero
  rate.)
\<close>

definition tNext :: "Application \<Rightarrow> Time" where
  "tNext g = Seconds (of_nat (unat (m_packetSize g * 8)) / of_nat (unat (m_dataRate g)))"

text \<open>
  The event a generator schedules is its own send method, bound to the object: the
  handler \<open>HSend\<close> of the one application that the simulator holds.
\<close>

text \<open>Class \<open>VoipApplication\<close>.\<close>

definition ScheduleTx :: "Simulator \<Rightarrow> Simulator" where
  "ScheduleTx w =
     (if m_running (sim_app w)
      then (let r = Schedule (tNext (sim_app w)) HSend w
            in (snd r)\<lparr>sim_app := (sim_app (snd r))\<lparr>m_sendEvent := Some (fst r)\<rparr>\<rparr>)
      else w)"

definition SendPacket :: "Simulator \<Rightarrow> Simulator" where
  "SendPacket w =
     (let w1 = w\<lparr>sim_trace := sim_trace w @ [Sent (sim_now w)],
                 sim_app := (sim_app w)\<lparr>m_packetsSent := m_packetsSent (sim_app w) + 1\<rparr>\<rparr>
      in if m_packetsSent (sim_app w1) < m_nPackets (sim_app w1) then ScheduleTx w1 else w1)"

definition VoipApplication_StartApplication :: "Simulator \<Rightarrow> Simulator" where
  "VoipApplication_StartApplication w =
     SendPacket (w\<lparr>sim_app := (sim_app w)\<lparr>m_running := True, m_packetsSent := 0\<rparr>\<rparr>)"

text \<open>
  The entry \<open>Stopped\<close> that \<open>StopApplication\<close> adds to the trace marks the instant at
  which the stop has taken effect.
\<close>

definition VoipApplication_StopApplication :: "Simulator \<Rightarrow> Simulator" where
  "VoipApplication_StopApplication w =
     (let w1 = w\<lparr>sim_app := (sim_app w)\<lparr>m_running := False\<rparr>\<rparr>;
          w2 = (if IsRunning (m_sendEvent (sim_app w1)) w1
                then Cancel (m_sendEvent (sim_app w1)) w1 else w1)
      in w2\<lparr>sim_trace := sim_trace w2 @ [Stopped (sim_now w2)]\<rparr>)"

text \<open>Class \<open>DDoSAttacker\<close>.\<close>

definition ScheduleNextPacket :: "Simulator \<Rightarrow> Simulator" where
  "ScheduleNextPacket w =
     (if m_running (sim_app w)
      then (let r = Schedule (tNext (sim_app w)) HSend w
            in (snd r)\<lparr>sim_app := (sim_app (snd r))\<lparr>m_sendEvent := Some (fst r)\<rparr>\<rparr>)
      else w)"

definition SendAttackPacket :: "Simulator \<Rightarrow> Simulator" where
  "SendAttackPacket w =
     ScheduleNextPacket
       (w\<lparr>sim_trace := sim_trace w @ [Sent (sim_now w)],
          sim_app := (sim_app w)\<lparr>m_packetsSent := m_packetsSent (sim_app w) + 1\<rparr>\<rparr>)"

definition DDoSAttacker_StartApplication :: "Simulator \<Rightarrow> Simulator" where
  "DDoSAttacker_StartApplication w =
     SendAttackPacket (w\<lparr>sim_app := (sim_app w)\<lparr>m_running := True, m_packetsSent := 0\<rparr>\<rparr>)"

definition DDoSAttacker_StopApplication :: "Simulator \<Rightarrow> Simulator" where
  "DDoSAttacker_StopApplication w =
     (let w1 = w\<lparr>sim_app := (sim_app w)\<lparr>m_running := False\<rparr>\<rparr>;
          w2 = (if IsRunning (m_sendEvent (sim_app w1)) w1
                then Cancel (m_sendEvent (sim_app w1)) w1 else w1)
      in w2\<lparr>sim_trace := sim_trace w2 @ [Stopped (sim_now w2)]\<rparr>)"

subsection \<open>Running the simulation\<close>

text \<open>An event calls the method of the application's class.\<close>

definition invoke :: "Handler \<Rightarrow> Simulator \<Rightarrow> Simulator" where
  "invoke h w =
     (case gen_kind (sim_app w) of
        VoipApplication \<Rightarrow>
          (case h of
             HStart \<Rightarrow> VoipApplication_StartApplication w
           | HStop \<Rightarrow> VoipApplication_StopApplication w
           | HSend \<Rightarrow> SendPacket w)
      | DDoSAttacker \<Rightarrow>
          (case h of
             HStart \<Rightarrow> DDoSAttacker_StartApplication w
           | HStop \<Rightarrow> DDoSAttacker_StopApplication w
           | HSend \<Rightarrow> SendAttackPacket w))"

text \<open>One event: the earliest pending one is removed, the clock set to its time, its handler run.\<close>

definition step :: "Simulator \<Rightarrow> Simulator option" where
  "step w =
     (case sim_events w of
        [] \<Rightarrow> None
      | e # es \<Rightarrow>
          (let ev = earliest e es
           in Some (invoke (ev_handler ev)
                (w\<lparr>sim_now := ev_time ev,
                   sim_events := filter (\<lambda>x. ev_uid x \<noteq> ev_uid ev) (e # es)\<rparr>))))"

text \<open>At most \<open>n\<close> events; the run ends early when no event is pending.\<close>

fun run :: "nat \<Rightarrow> Simulator \<Rightarrow> Simulator" where
  "run 0 w = w"
| "run (Suc n) w = (case step w of None \<Rightarrow> w | Some w' \<Rightarrow> run n w')"

text \<open>
  Modelled from the spec: the base class \<open>Application\<close> of the framework is not in the
  repository. For an application with a start time and, optionally, a stop time
  (\<open>SetStartTime\<close>, \<open>SetStopTime\<close> in the scripts), \<open>StartApplication\<close> and
  \<open>StopApplication\<close> are events at these times, scheduled in this order before the run.
\<close>

definition boot :: "Application \<Rightarrow> Time \<Rightarrow> Time option \<Rightarrow> Simulator" where
  "boot g tstart tstop =
     (let w0 = \<lparr>sim_now = 0, sim_uid = 0, sim_events = [], sim_app = g, sim_trace = []\<rparr>;
          w1 = snd (Schedule tstart HStart w0)
      in case tstop of None \<Rightarrow> w1 | Some t \<Rightarrow> snd (Schedule t HStop w1))"

fun is_Sent :: "Observation \<Rightarrow> bool" where
  "is_Sent (Sent t) = True"
| "is_Sent (Stopped t) = False"



text \<open>
  How many sends a generator started and not stopped has made after \<open>k\<close> events: the
  start sends one packet, each later event one more; the VoIP generator stops at
  \<open>max 1 m_nPackets\<close>.
\<close>

definition sends_after :: "Application \<Rightarrow> nat \<Rightarrow> nat" where
  "sends_after g k =
     (case gen_kind g of
        VoipApplication \<Rightarrow> min k (max 1 (unat (m_nPackets g)))
      | DDoSAttacker \<Rightarrow> k)"

section \<open>Policy steering: class PbrController\<close>

text \<open>
  The static routing table of the framework (\<open>Ipv4StaticRouting\<close>) is used through
  \<open>GetNRoutes\<close>, \<open>GetRoute\<close>, \<open>RemoveRoute\<close> and \<open>AddNetworkRouteTo\<close>.
  Modelled from the spec: the table is an insertion-ordered collection of entries; adding
  appends an entry, with no uniqueness constraint; removing deletes the entry at an index.
\<close>

definition ipv4 :: "nat \<Rightarrow> nat \<Rightarrow> nat \<Rightarrow> nat \<Rightarrow> 32 word" where
  "ipv4 a b c d = word_of_nat (((a * 256 + b) * 256 + c) * 256 + d)"

record Ipv4RoutingTableEntry =
  rt_dest :: "32 word"
  rt_mask :: "32 word"
  rt_gateway :: "32 word"
  rt_interface :: "32 word"

type_synonym Ipv4StaticRouting = "Ipv4RoutingTableEntry list"

definition GetNRoutes :: "Ipv4StaticRouting \<Rightarrow> nat" where
  "GetNRoutes t = length t"

definition GetRoute :: "Ipv4StaticRouting \<Rightarrow> nat \<Rightarrow> Ipv4RoutingTableEntry" where
  "GetRoute t i = t ! i"

definition RemoveRoute :: "Ipv4StaticRouting \<Rightarrow> nat \<Rightarrow> Ipv4StaticRouting" where
  "RemoveRoute t i = take i t @ drop (Suc i) t"

definition AddNetworkRouteTo ::
  "32 word \<Rightarrow> 32 word \<Rightarrow> 32 word \<Rightarrow> 32 word \<Rightarrow> Ipv4StaticRouting \<Rightarrow> Ipv4StaticRouting" where
  "AddNetworkRouteTo network networkMask nextHop interface t =
     t @ [\<lparr>rt_dest = network, rt_mask = networkMask, rt_gateway = nextHop,
           rt_interface = interface\<rparr>]"

record PbrController =
  m_state :: bool

definition PbrController_new :: PbrController where
  "PbrController_new = \<lparr>m_state = True\<rparr>"

definition destNet :: "32 word" where
  "destNet = ipv4 10 200 0 0"

definition mask24 :: "32 word" where
  "mask24 = ipv4 255 255 255 0"

definition primaryHop :: "32 word" where
  "primaryHop = ipv4 10 100 1 2"

definition secondaryHop :: "32 word" where
  "secondaryHop = ipv4 10 100 2 2"

definition watched :: "Ipv4RoutingTableEntry \<Rightarrow> bool" where
  "watched e \<longleftrightarrow> rt_dest e = destNet \<and> rt_mask e = mask24"

text \<open>
  The removal loop \<open>for (int i = (int)n - 1; i >= 0; --i)\<close>: the first argument counts
  the indices still to visit, so \<open>Suc i\<close> visits index \<open>i\<close>.
\<close>

fun remove_watched :: "nat \<Rightarrow> Ipv4StaticRouting \<Rightarrow> Ipv4StaticRouting" where
  "remove_watched 0 t = t"
| "remove_watched (Suc i) t =
     remove_watched i (if watched (GetRoute t i) then RemoveRoute t i else t)"

text \<open>
  \<open>Toggle\<close>: remove the routes to the watched network, add the route that \<open>m_state\<close>
  selects, flip \<open>m_state\<close>. The method then schedules itself again five seconds later, so
  the state after the \<open>k\<close>-th call is the \<open>k\<close>-fold iterate.
\<close>

definition Toggle :: "Ipv4StaticRouting \<times> PbrController \<Rightarrow> Ipv4StaticRouting \<times> PbrController" where
  "Toggle p =
     (let t = fst p; c = snd p;
          t1 = remove_watched (GetNRoutes t) t;
          t2 = (if m_state c
                then AddNetworkRouteTo destNet mask24 primaryHop 1 t1
                else AddNetworkRouteTo destNet mask24 secondaryHop 2 t1)
      in (t2, c\<lparr>m_state := \<not> m_state c\<rparr>))"

text \<open>
  \<open>main\<close>: on top of the routes \<open>pre\<close> that the router already has, the initial route to
  the watched network goes via the primary next hop; then the controller is created.
\<close>

definition pbr_main :: "Ipv4StaticRouting \<Rightarrow> Ipv4StaticRouting \<times> PbrController" where
  "pbr_main pre = (AddNetworkRouteTo destNet mask24 primaryHop 1 pre, PbrController_new)"

definition active_next_hops :: "Ipv4StaticRouting \<times> PbrController \<Rightarrow> 32 word list" where
  "active_next_hops p = map rt_gateway (filter watched (fst p))"

section \<open>Flow statistics\<close>

text \<open>The fields of the framework's per-flow record that the reports read.\<close>

record FlowStats =
  txPackets :: nat
  rxPackets :: nat
  lostPackets :: nat
  rxBytes :: nat
  timeFirstTxPacket :: Time
  timeLastRxPacket :: Time

text \<open>
  A \<open>double\<close> quotient: division by zero does not trap in C++, it gives an infinity or
  a NaN, written \<open>NotFinite\<close> here.
\<close>

datatype Double = Finite rat | NotFinite

definition fdiv :: "rat \<Rightarrow> rat \<Rightarrow> Double" where
  "fdiv a b = (if b = 0 then NotFinite else Finite (a / b))"

text \<open>The shape \<open>a / b / c\<close> of all three throughput computations.\<close>

definition fdiv2 :: "rat \<Rightarrow> rat \<Rightarrow> rat \<Rightarrow> Double" where
  "fdiv2 a b c = (case fdiv a b of NotFinite \<Rightarrow> NotFinite | Finite x \<Rightarrow> fdiv x c)"

text \<open>
  The multi-site report (\<open>exercise1_multi_site_wan.cc\<close>): the duration is replaced by
  \<open>1e-9\<close> when it is not positive. The result is in Mbit/s; \<open>None\<close> when no packet was
  received and the report prints no throughput.
\<close>

definition duration_multi_site :: "FlowStats \<Rightarrow> rat" where
  "duration_multi_site s =
     (let duration = GetSeconds (timeLastRxPacket s) - GetSeconds (timeFirstTxPacket s)
      in if duration \<le> 0 then 1 / 10 ^ 9 else duration)"

definition throughput_multi_site :: "FlowStats \<Rightarrow> Double option" where
  "throughput_multi_site s =
     (if rxPackets s > 0
      then Some (fdiv2 (of_nat (rxBytes s) * 8) (duration_multi_site s) (10 ^ 6))
      else None)"

text \<open>
  The QoS report (exercise 2) and the business-continuity report
  (\<open>exercise4_multi_hop_wan.cc\<close>) divide by the difference of the two times as it is; the
  first reports Mbit/s, the second kbit/s.
\<close>

definition duration_qos :: "FlowStats \<Rightarrow> rat" where
  "duration_qos s = GetSeconds (timeLastRxPacket s) - GetSeconds (timeFirstTxPacket s)"

definition throughput_qos :: "FlowStats \<Rightarrow> Double option" where
  "throughput_qos s =
     (if rxPackets s > 0
      then Some (fdiv2 (of_nat (rxBytes s) * 8) (duration_qos s) 1000000)
      else None)"

definition duration_multi_hop :: "FlowStats \<Rightarrow> rat" where
  "duration_multi_hop s = GetSeconds (timeLastRxPacket s) - GetSeconds (timeFirstTxPacket s)"

definition throughput_multi_hop :: "FlowStats \<Rightarrow> Double option" where
  "throughput_multi_hop s =
     (if rxPackets s > 0
      then Some (fdiv2 (of_nat (rxBytes s) * 8) (duration_multi_hop s) 1000)
      else None)"

section \<open>Routing with failover\<close>

text \<open>
  \<open>FailLink\<close> of the triangle topology zeroes the MTU of the two devices of a link. A
  device is known by a number, the device state is the MTU of each device.
\<close>

type_synonym Devices = "nat \<Rightarrow> 16 word"

definition FailLink :: "nat \<Rightarrow> nat \<Rightarrow> Devices \<Rightarrow> Devices" where
  "FailLink a b devs = devs(a := 0, b := 0)"

text \<open>
  \<open>Simulator::Schedule(Seconds(4.0), &FailLink, a, b)\<close> in \<open>main\<close>: the device state seen
  by anything that runs at time \<open>t\<close>.
\<close>

definition devices_at :: "nat \<Rightarrow> nat \<Rightarrow> Devices \<Rightarrow> Time \<Rightarrow> Devices" where
  "devices_at a b devs t = (if Seconds 4 \<le> t then FailLink a b devs else devs)"

datatype LinkState = Up | Down

text \<open>
  Modelled from the spec: the state of a link. The repository has no such field; the spec
  reads a link whose two ends have their transmission unit zeroed as \<open>Down\<close>.
\<close>

definition link_state :: "Devices \<Rightarrow> nat \<times> nat \<Rightarrow> LinkState" where
  "link_state devs l = (if devs (fst l) = 0 \<and> devs (snd l) = 0 then Down else Up)"

text \<open>
  Modelled from the spec: a route entry (destination network, mask, next hop, the link it
  leaves by, metric) and \<open>Lookup\<close>. The repository never looks a route up itself, it
  leaves forwarding to the framework. The spec: \<open>Lookup\<close> scans the entries for the
  destination, filters out any whose link is \<open>Down\<close>, and returns the surviving entry
  with the lowest metric, the first inserted among equals; it returns unreachable
  (\<open>None\<close>) if none survives.
\<close>

record RouteEntry =
  re_dest :: "32 word"
  re_mask :: "32 word"
  re_nextHop :: "32 word"
  re_link :: "nat \<times> nat"
  re_metric :: nat

definition entry_for :: "32 word \<Rightarrow> RouteEntry \<Rightarrow> bool" where
  "entry_for dest e \<longleftrightarrow> dest AND re_mask e = re_dest e"

fun lowest_metric :: "RouteEntry \<Rightarrow> RouteEntry list \<Rightarrow> RouteEntry" where
  "lowest_metric e [] = e"
| "lowest_metric e (x # xs) = lowest_metric (if re_metric x < re_metric e then x else e) xs"

definition Lookup :: "RouteEntry list \<Rightarrow> Devices \<Rightarrow> 32 word \<Rightarrow> RouteEntry option" where
  "Lookup table devs dest =
     (case filter (\<lambda>e. entry_for dest e \<and> link_state devs (re_link e) \<noteq> Down) table of
        [] \<Rightarrow> None
      | e # es \<Rightarrow> Some (lowest_metric e es))"

section \<open>Notions used to state and prove the properties of the generators\<close>

text \<open>
  A generator that was started and not stopped has more to send after its \<open>j\<close>-th
  packet if it is the flood generator, or if \<open>j\<close> is below the packet count.
\<close>

definition more_to_send :: "Application \<Rightarrow> nat \<Rightarrow> bool" where
  "more_to_send g j \<longleftrightarrow> gen_kind g = DDoSAttacker \<or> j < unat (m_nPackets g)"

text \<open>
  The simulator just after the \<open>j\<close>-th send of a generator started at \<open>ts\<close>: the sends
  so far were at \<open>ts\<close>, \<open>ts + tNext\<close>, ..., the next one, if any, is the only pending
  event.
\<close>

definition sending :: "Application \<Rightarrow> Time \<Rightarrow> nat \<Rightarrow> Simulator \<Rightarrow> bool" where
  "sending g ts j w \<longleftrightarrow>
     sim_trace w = map (\<lambda>i. Sent (ts + of_nat i * tNext g)) [0..<j] \<and>
     sim_now w = ts + of_nat (j - 1) * tNext g \<and>
     (\<exists>ev. sim_app w = g\<lparr>m_running := True, m_packetsSent := of_nat j, m_sendEvent := ev\<rparr>) \<and>
     (if more_to_send g j
      then \<exists>u. sim_events w =
             [\<lparr>ev_time = ts + of_nat j * tNext g, ev_uid = u, ev_handler = HSend\<rparr>]
      else sim_events w = [])"





section \<open>Arithmetic facts\<close>

lemma unat_sz_bound: "unat (sz :: 32 word) < 2 ^ 32"
  using unsigned_less[of sz, where 'a=nat] by simp

lemma unat_ucast_size: "unat (ucast (sz :: 32 word) :: 64 word) = unat sz"
proof -
  have "unat sz < 2 ^ 64" using unat_sz_bound[of sz] by simp
  then show ?thesis by (simp add: unsigned_ucast_eq take_bit_nat_eq_self_iff)
qed

lemma unat_add_size:
  assumes "unat (b :: 64 word) < 2 ^ 63"
  shows "unat (b + ucast (sz :: 32 word)) = unat b + unat sz"
proof -
  have "unat b + unat sz < 2 ^ 64" using assms unat_sz_bound[of sz] by simp
  then show ?thesis by (simp add: unat_word_ariths unat_ucast_size)
qed

lemma div8_bound: "unat ((r :: 64 word) div 8) < 2 ^ 61"
proof -
  have "unat r < 2 ^ 64" using unsigned_less[of r, where 'a=nat] by simp
  then show ?thesis by (simp add: unat_div)
qed


section \<open>The admission controller\<close>

lemma AllowPacket_stages: "AllowPacket sz now s = Admit sz (ResetWindow now s)"
  by (simp add: AllowPacket_def Admit_def ResetWindow_def Let_def)

lemma uint64_of_double_nat: "uint64_of_double (of_nat n) = word_of_nat n"
  by (simp add: uint64_of_double_def)

lemma maxBytes_unit_window:
  "m_windowSize s = Seconds 1 \<Longrightarrow> maxBytes s = m_rateLimit s div 8"
  using uint64_of_double_nat[of "unat (m_rateLimit s div 8)"]
  by (simp add: maxBytes_def Seconds_def GetSeconds_def)

text \<open>
  The class has no setter for the window: in every reachable state it is the
  constructor's one second, and the byte counter stays below \<open>2^61\<close>, far from the
  point where the 64-bit sum of the admission test could wrap.
\<close>

lemma reachable_window: "reachable s \<Longrightarrow> m_windowSize s = Seconds 1"
  by (induction rule: reachable.induct)
     (auto simp: RateLimiter_new_def SetLimit_def AllowPacket_stages Admit_def ResetWindow_def)

lemma reachable_bytes: "reachable s \<Longrightarrow> unat (m_bytesInWindow s) < 2 ^ 61"
proof (induction rule: reachable.induct)
  case reach_new
  show ?case by (simp add: RateLimiter_new_def)
next
  case (reach_SetLimit s rate)
  then show ?case by (simp add: SetLimit_def)
next
  case (reach_AllowPacket s sz now)
  let ?s1 = "ResetWindow now s"
  have w: "m_windowSize ?s1 = Seconds 1"
    using reachable_window[OF reach_AllowPacket.hyps] by (simp add: ResetWindow_def)
  have b1: "unat (m_bytesInWindow ?s1) < 2 ^ 61"
    using reach_AllowPacket.IH by (simp add: ResetWindow_def)
  show ?case
  proof (cases "m_bytesInWindow ?s1 + ucast sz \<le> maxBytes ?s1")
    case True
    then have "unat (m_bytesInWindow ?s1 + ucast sz) \<le> unat (m_rateLimit ?s1 div 8)"
      by (simp add: maxBytes_unit_window[OF w] word_le_nat_alt)
    also have "\<dots> < 2 ^ 61" by (rule div8_bound)
    finally show ?thesis using True by (simp add: AllowPacket_stages Admit_def)
  next
    case False
    then show ?thesis using b1 by (simp add: AllowPacket_stages Admit_def)
  qed
qed

lemma maxBytes_update [simp]:
  "maxBytes (s\<lparr>m_bytesInWindow := b\<rparr>) = maxBytes s"
  "maxBytes (s\<lparr>m_droppedPackets := d\<rparr>) = maxBytes s"
  "maxBytes (s\<lparr>m_windowStart := t\<rparr>) = maxBytes s"
  by (simp_all add: maxBytes_def)

lemma maxBytes_ResetWindow [simp]: "maxBytes (ResetWindow t s) = maxBytes s"
  by (simp add: ResetWindow_def)




text \<open>The two size conditions of the next theorem hold in every reachable state.\<close>

lemma reachable_product:
  assumes "reachable s"
  shows "0 \<le> m_windowSize s \<and>
         of_nat (unat (m_rateLimit s) div 8) * m_windowSize s < 2 ^ 63"
proof -
  have w: "m_windowSize s = 1" using reachable_window[OF assms] by (simp add: Seconds_def)
  have "unat (m_rateLimit s) div 8 < 2 ^ 61"
    using div8_bound[of "m_rateLimit s"] by (simp add: unat_div)
  then have "unat (m_rateLimit s) div 8 < 2 ^ 63" by simp
  then have "(of_nat (unat (m_rateLimit s) div 8) :: rat) < of_nat (2 ^ 63)"
    by (simp only: of_nat_less_iff)
  then show ?thesis by (simp add: w)
qed



text \<open>
  C5, as stated, fails: with a limit of zero a packet of size zero passes the test
  \<open>0 + 0 <= 0\<close> on an empty window and is allowed.
\<close>

theorem zero_limit_counterexample:
  "m_rateLimit (SetLimit 0 RateLimiter_new) = 0 \<and>
   fst (AllowPacket 0 (Seconds 2) (SetLimit 0 RateLimiter_new))"
  by (simp add: SetLimit_def RateLimiter_new_def AllowPacket_stages Admit_def ResetWindow_def
      maxBytes_def uint64_of_double_def Seconds_def GetSeconds_def)

text \<open>
  C5, amended. In every reachable state with a limit of zero, \<open>AllowPacket\<close> denies every
  packet of non-zero size, whatever its arrival time; it allows a packet exactly when the
  packet is empty and the window (after the reset, if one is due) holds no bytes.
\<close>

theorem zero_limit_denies_nonempty:
  assumes "reachable s" and "m_rateLimit s = 0"
  shows "fst (AllowPacket sz now s) \<longleftrightarrow> sz = 0 \<and> m_bytesInWindow (ResetWindow now s) = 0"
proof -
  let ?s1 = "ResetWindow now s"
  have w: "m_windowSize ?s1 = Seconds 1"
    using reachable_window[OF assms(1)] by (simp add: ResetWindow_def)
  have r: "m_rateLimit ?s1 = 0" using assms(2) by (simp add: ResetWindow_def)
  have m: "maxBytes s = 0" using maxBytes_unit_window[OF w] r by simp
  have "unat (m_bytesInWindow ?s1) < 2 ^ 61"
    using reachable_bytes[OF assms(1)] by (simp add: ResetWindow_def)
  then have "unat (m_bytesInWindow ?s1) < 2 ^ 63" by simp
  then have sum: "unat (m_bytesInWindow ?s1 + ucast sz) = unat (m_bytesInWindow ?s1) + unat sz"
    by (rule unat_add_size)
  have "fst (AllowPacket sz now s) \<longleftrightarrow> m_bytesInWindow ?s1 + ucast sz = 0"
    by (simp add: AllowPacket_stages Admit_def m)
  also have "\<dots> \<longleftrightarrow> unat (m_bytesInWindow ?s1 + ucast sz) = 0"
    by (simp add: unat_eq_zero)
  also have "\<dots> \<longleftrightarrow> sz = 0 \<and> m_bytesInWindow ?s1 = 0"
    by (auto simp: sum unat_eq_zero)
  finally show ?thesis .
qed

theorem zero_limit_denies_nonempty_witness:
  "reachable (SetLimit 0 RateLimiter_new) \<and> m_rateLimit (SetLimit 0 RateLimiter_new) = 0 \<and>
   \<not> fst (AllowPacket 1024 (Seconds 2) (SetLimit 0 RateLimiter_new))"
proof -
  have r: "reachable (SetLimit 0 RateLimiter_new)"
    by (intro reachable.intros)
  have z: "m_rateLimit (SetLimit 0 RateLimiter_new) = 0"
    by (simp add: SetLimit_def)
  show ?thesis
    using zero_limit_denies_nonempty[OF r z, of 1024 "Seconds 2"] r z by simp
qed

text \<open>
  C6. The reset boundary is inclusive: whenever \<open>now - m_windowStart >= m_windowSize\<close>,
  the window is reset before the admission test, which then runs on a state with
  \<open>m_bytesInWindow = 0\<close> and \<open>m_windowStart = now\<close>; afterwards the window starts at
  \<open>now\<close> and holds the packet's bytes if it was allowed and none otherwise. A packet
  arriving exactly at \<open>m_windowStart + m_windowSize\<close> is such a call.
\<close>

theorem reset_boundary_inclusive:
  assumes "m_windowSize s \<le> now - m_windowStart s"
  shows "ResetWindow now s = s\<lparr>m_bytesInWindow := 0, m_windowStart := now\<rparr> \<and>
         AllowPacket sz now s = Admit sz (s\<lparr>m_bytesInWindow := 0, m_windowStart := now\<rparr>) \<and>
         m_windowStart (snd (AllowPacket sz now s)) = now \<and>
         m_bytesInWindow (snd (AllowPacket sz now s)) =
           (if fst (AllowPacket sz now s) then ucast sz else 0)"
  using assms by (simp add: AllowPacket_stages ResetWindow_def Admit_def)

text \<open>
  A window opened at 0 that holds 700 bytes, and a packet of 100 bytes arriving exactly
  one window later.
\<close>

theorem reset_boundary_inclusive_witness:
  "m_windowSize (RateLimiter_new\<lparr>m_bytesInWindow := 700\<rparr>) \<le>
     (m_windowStart RateLimiter_new + m_windowSize RateLimiter_new) -
       m_windowStart (RateLimiter_new\<lparr>m_bytesInWindow := 700\<rparr>) \<and>
   AllowPacket 100 (m_windowStart RateLimiter_new + m_windowSize RateLimiter_new)
       (RateLimiter_new\<lparr>m_bytesInWindow := 700\<rparr>) =
     (True, RateLimiter_new\<lparr>m_bytesInWindow := 100, m_windowStart := Seconds 1\<rparr>)"
proof -
  let ?s = "RateLimiter_new\<lparr>m_bytesInWindow := 700\<rparr>"
  let ?now = "m_windowStart RateLimiter_new + m_windowSize RateLimiter_new"
  have h: "m_windowSize ?s \<le> ?now - m_windowStart ?s" by simp
  show ?thesis
    using reset_boundary_inclusive[OF h, of 100] h
    by (simp add: RateLimiter_new_def Admit_def maxBytes_def uint64_of_double_def
        Seconds_def GetSeconds_def)
qed



section \<open>Policy steering\<close>

text \<open>The removal loop deletes exactly the routes to the watched network.\<close>

lemma remove_watched_filter:
  "i \<le> length t \<Longrightarrow>
   remove_watched i t = filter (\<lambda>e. \<not> watched e) (take i t) @ drop i t"
proof (induction i arbitrary: t)
  case 0
  show ?case by simp
next
  case (Suc i)
  then have i: "i < length t" by simp
  have tk: "take (Suc i) t = take i t @ [t ! i]" using i by (simp add: take_Suc_conv_app_nth)
  show ?case
  proof (cases "watched (t ! i)")
    case True
    have "remove_watched (Suc i) t = remove_watched i (take i t @ drop (Suc i) t)"
      using True by (simp add: GetRoute_def RemoveRoute_def)
    also have "\<dots> = filter (\<lambda>e. \<not> watched e) (take i (take i t @ drop (Suc i) t)) @
        drop i (take i t @ drop (Suc i) t)"
      using i by (intro Suc.IH) simp
    also have "\<dots> = filter (\<lambda>e. \<not> watched e) (take i t) @ drop (Suc i) t"
      using i by simp
    finally show ?thesis using True by (simp add: tk)
  next
    case False
    have "remove_watched (Suc i) t = remove_watched i t"
      using False by (simp add: GetRoute_def)
    also have "\<dots> = filter (\<lambda>e. \<not> watched e) (take i t) @ drop i t"
      using i by (intro Suc.IH) simp
    also have "drop i t = t ! i # drop (Suc i) t" using i by (simp add: Cons_nth_drop_Suc)
    finally show ?thesis using False by (simp add: tk)
  qed
qed

lemma hops_differ: "primaryHop \<noteq> secondaryHop"
  by (simp add: primaryHop_def secondaryHop_def ipv4_def)

lemma Toggle_eq:
  "Toggle (t, c) =
     (filter (\<lambda>e. \<not> watched e) t @
        [\<lparr>rt_dest = destNet, rt_mask = mask24,
          rt_gateway = (if m_state c then primaryHop else secondaryHop),
          rt_interface = (if m_state c then 1 else 2)\<rparr>],
      c\<lparr>m_state := \<not> m_state c\<rparr>)"
  by (simp add: Toggle_def Let_def GetNRoutes_def remove_watched_filter AddNetworkRouteTo_def)

lemma active_next_hops_Toggle:
  "active_next_hops (Toggle p) = [if m_state (snd p) then primaryHop else secondaryHop]"
  by (cases p) (simp add: Toggle_eq active_next_hops_def watched_def)

lemma m_state_Toggle: "m_state (snd (Toggle p)) = (\<not> m_state (snd p))"
  by (cases p) (simp add: Toggle_eq)

lemma m_state_toggles: "m_state (snd ((Toggle ^^ k) (pbr_main pre))) = even k"
  by (induction k) (simp_all add: m_state_Toggle pbr_main_def PbrController_new_def)

text \<open>
  C3, as stated, fails: the controller starts with \<open>m_state = true\<close>, so the first toggle
  installs the primary next hop again, although \<open>k = 1\<close> is odd.
\<close>

theorem toggle_parity_counterexample:
  "active_next_hops ((Toggle ^^ 1) (pbr_main [])) = [primaryHop] \<and>
   active_next_hops ((Toggle ^^ 1) (pbr_main [])) \<noteq> [secondaryHop]"
  using hops_differ
  by (simp add: active_next_hops_Toggle pbr_main_def PbrController_new_def)

text \<open>
  C3, amended. On a router whose other routes do not concern the watched network, after
  the \<open>k\<close>-th toggle the table holds exactly one route to the watched network; its next
  hop is the primary one (A) before any toggle and after every odd toggle, and the
  secondary one (B) after every even toggle \<open>k \<ge> 2\<close>.
\<close>

theorem toggle_next_hop:
  assumes "\<forall>e\<in>set pre. \<not> watched e"
  shows "active_next_hops ((Toggle ^^ k) (pbr_main pre)) =
           [if k = 0 \<or> odd k then primaryHop else secondaryHop]"
proof (cases k)
  case 0
  have "filter watched pre = []" using assms by (simp add: filter_empty_conv)
  then show ?thesis using 0
    by (simp add: active_next_hops_def pbr_main_def AddNetworkRouteTo_def watched_def)
next
  case (Suc j)
  have "active_next_hops ((Toggle ^^ Suc j) (pbr_main pre)) =
      [if m_state (snd ((Toggle ^^ j) (pbr_main pre))) then primaryHop else secondaryHop]"
    by (simp add: active_next_hops_Toggle)
  then show ?thesis using Suc by (simp add: m_state_toggles)
qed

text \<open>
  A router that has the route of its client network only: after the second toggle the
  traffic is steered via the secondary next hop.
\<close>

theorem toggle_next_hop_witness:
  "\<not> watched \<lparr>rt_dest = ipv4 10 0 1 0, rt_mask = mask24, rt_gateway = 0, rt_interface = 1\<rparr> \<and>
   active_next_hops ((Toggle ^^ 2)
      (pbr_main [\<lparr>rt_dest = ipv4 10 0 1 0, rt_mask = mask24, rt_gateway = 0, rt_interface = 1\<rparr>])) =
     [secondaryHop]"
proof -
  have n: "\<not> watched \<lparr>rt_dest = ipv4 10 0 1 0, rt_mask = mask24, rt_gateway = 0,
      rt_interface = 1\<rparr>"
    by (simp add: watched_def destNet_def ipv4_def)
  then have h: "\<forall>e\<in>set [\<lparr>rt_dest = ipv4 10 0 1 0, rt_mask = mask24, rt_gateway = 0,
      rt_interface = 1\<rparr>]. \<not> watched e"
    by simp
  show ?thesis using toggle_next_hop[OF h, of 2] n by simp
qed

section \<open>Failover\<close>

lemma lowest_metric_in: "lowest_metric e es \<in> set (e # es)"
  by (induction es arbitrary: e) auto

lemma Lookup_Some:
  assumes "Lookup table devs dest = Some e"
  shows "e \<in> set table \<and> entry_for dest e \<and> link_state devs (re_link e) = Up"
proof -
  let ?fs = "filter (\<lambda>e. entry_for dest e \<and> link_state devs (re_link e) \<noteq> Down) table"
  obtain x xs where fs: "?fs = x # xs" and e: "e = lowest_metric x xs"
    using assms by (auto simp: Lookup_def split: list.splits)
  have "e \<in> set ?fs" using lowest_metric_in[of x xs] fs e by simp
  then have "e \<in> set table \<and> entry_for dest e \<and> link_state devs (re_link e) \<noteq> Down"
    by simp
  then show ?thesis by (cases "link_state devs (re_link e)") simp_all
qed

text \<open>
  C1. \<open>Lookup\<close> never returns an entry whose link is \<open>Down\<close>: a returned entry is an
  entry of the table for the destination whose link is \<open>Up\<close>. In particular, take a table
  with an entry of metric 1 over the link \<open>(a, b)\<close> that \<open>FailLink\<close> disables at 4.0 s and
  an entry of metric 2 over another link whose device \<open>c\<close> keeps its MTU: at 4.1 s the
  first link is \<open>Down\<close> and the lookup returns the entry of metric 2.
\<close>

theorem lookup_skips_down_links:
  "(Lookup table devs dest = Some e \<longrightarrow>
      link_state devs (re_link e) = Up \<and> e \<in> set table \<and> entry_for dest e) \<and>
   (entry_for dest e1 \<and> entry_for dest e2 \<and> re_metric e1 = 1 \<and> re_metric e2 = 2 \<and>
    re_link e1 = (a, b) \<and> re_link e2 = (c, d) \<and> c \<noteq> a \<and> c \<noteq> b \<and> devs0 c \<noteq> 0 \<longrightarrow>
      link_state (devices_at a b devs0 (Seconds (41 / 10))) (re_link e1) = Down \<and>
      Lookup [e1, e2] (devices_at a b devs0 (Seconds (41 / 10))) dest = Some e2)"
proof -
  have general: "link_state devs (re_link e) = Up \<and> e \<in> set table \<and> entry_for dest e"
    if "Lookup table devs dest = Some e"
    using Lookup_Some[OF that] by simp
  have scenario: "link_state (devices_at a b devs0 (Seconds (41 / 10))) (re_link e1) = Down \<and>
      Lookup [e1, e2] (devices_at a b devs0 (Seconds (41 / 10))) dest = Some e2"
    if h: "entry_for dest e1 \<and> entry_for dest e2 \<and> re_metric e1 = 1 \<and> re_metric e2 = 2 \<and>
      re_link e1 = (a, b) \<and> re_link e2 = (c, d) \<and> c \<noteq> a \<and> c \<noteq> b \<and> devs0 c \<noteq> 0"
  proof -
    have at: "devices_at a b devs0 (Seconds (41 / 10)) = FailLink a b devs0"
      by (simp add: devices_at_def Seconds_def)
    have down1: "link_state (FailLink a b devs0) (re_link e1) = Down"
      using h by (simp add: link_state_def FailLink_def)
    have up2: "link_state (FailLink a b devs0) (re_link e2) = Up"
      using h by (simp add: link_state_def FailLink_def)
    have "Lookup [e1, e2] (FailLink a b devs0) dest = Some e2"
      using h down1 up2 by (simp add: Lookup_def)
    then show ?thesis using down1 by (simp add: at)
  qed
  show ?thesis using general scenario by blast
qed

text \<open>
  Two routes to 10.1.2.0/24, all devices with an MTU of 1500: before the failure the
  lookup for 10.1.2.2 returns the entry of metric 1, at 4.1 s the entry of metric 2.
\<close>

theorem lookup_skips_down_links_witness:
  "Lookup [\<lparr>re_dest = ipv4 10 1 2 0, re_mask = mask24, re_nextHop = ipv4 10 1 3 1,
             re_link = (4, 5), re_metric = 1\<rparr>,
           \<lparr>re_dest = ipv4 10 1 2 0, re_mask = mask24, re_nextHop = ipv4 10 1 1 2,
             re_link = (0, 1), re_metric = 2\<rparr>] (\<lambda>d. 1500) (ipv4 10 1 2 2) =
     Some \<lparr>re_dest = ipv4 10 1 2 0, re_mask = mask24, re_nextHop = ipv4 10 1 3 1,
             re_link = (4, 5), re_metric = 1\<rparr> \<and>
   link_state (\<lambda>d. 1500) (4, 5) = Up \<and>
   entry_for (ipv4 10 1 2 2) \<lparr>re_dest = ipv4 10 1 2 0, re_mask = mask24,
      re_nextHop = ipv4 10 1 3 1, re_link = (4, 5), re_metric = 1\<rparr> \<and>
   entry_for (ipv4 10 1 2 2) \<lparr>re_dest = ipv4 10 1 2 0, re_mask = mask24,
      re_nextHop = ipv4 10 1 1 2, re_link = (0, 1), re_metric = 2\<rparr> \<and>
   Lookup [\<lparr>re_dest = ipv4 10 1 2 0, re_mask = mask24, re_nextHop = ipv4 10 1 3 1,
             re_link = (4, 5), re_metric = 1\<rparr>,
           \<lparr>re_dest = ipv4 10 1 2 0, re_mask = mask24, re_nextHop = ipv4 10 1 1 2,
             re_link = (0, 1), re_metric = 2\<rparr>]
      (devices_at 4 5 (\<lambda>d. 1500) (Seconds (41 / 10))) (ipv4 10 1 2 2) =
     Some \<lparr>re_dest = ipv4 10 1 2 0, re_mask = mask24, re_nextHop = ipv4 10 1 1 2,
             re_link = (0, 1), re_metric = 2\<rparr>"
proof -
  let ?e1 = "\<lparr>re_dest = ipv4 10 1 2 0, re_mask = mask24, re_nextHop = ipv4 10 1 3 1,
             re_link = (4, 5), re_metric = 1\<rparr>"
  let ?e2 = "\<lparr>re_dest = ipv4 10 1 2 0, re_mask = mask24, re_nextHop = ipv4 10 1 1 2,
             re_link = (0, 1), re_metric = 2\<rparr>"
  have f1: "entry_for (ipv4 10 1 2 2) ?e1" and f2: "entry_for (ipv4 10 1 2 2) ?e2"
    by (simp_all add: entry_for_def ipv4_def mask24_def)
  have up: "link_state (\<lambda>d. 1500) (4, 5) = Up" "link_state (\<lambda>d. 1500) (0, 1) = Up"
    by (simp_all add: link_state_def)
  have l0: "Lookup [?e1, ?e2] (\<lambda>d. 1500) (ipv4 10 1 2 2) = Some ?e1"
    using f1 f2 up by (simp add: Lookup_def)
  show ?thesis
    using lookup_skips_down_links[of "[?e1, ?e2]" "\<lambda>d. 1500" "ipv4 10 1 2 2" ?e1
            ?e1 ?e2 4 5 0 1 "\<lambda>d. 1500"] f1 f2 up l0
    by simp
qed

section \<open>Throughput reports\<close>

lemma duration_multi_site_positive: "0 < duration_multi_site s"
  by (simp add: duration_multi_site_def Let_def)

text \<open>
  C7. Only the multi-site report guards the duration. For a flow whose last reception
  carries the time of its first transmission, the QoS report and the
  business-continuity report divide by a duration of zero, while the multi-site report
  divides by \<open>1e-9\<close>.
\<close>

theorem throughput_guard_missing:
  "duration_qos \<lparr>txPackets = 1, rxPackets = 1, lostPackets = 0, rxBytes = 1024,
       timeFirstTxPacket = Seconds 2, timeLastRxPacket = Seconds 2\<rparr> = 0 \<and>
   throughput_qos \<lparr>txPackets = 1, rxPackets = 1, lostPackets = 0, rxBytes = 1024,
       timeFirstTxPacket = Seconds 2, timeLastRxPacket = Seconds 2\<rparr> = Some NotFinite \<and>
   duration_multi_hop \<lparr>txPackets = 1, rxPackets = 1, lostPackets = 0, rxBytes = 1024,
       timeFirstTxPacket = Seconds 2, timeLastRxPacket = Seconds 2\<rparr> = 0 \<and>
   throughput_multi_hop \<lparr>txPackets = 1, rxPackets = 1, lostPackets = 0, rxBytes = 1024,
       timeFirstTxPacket = Seconds 2, timeLastRxPacket = Seconds 2\<rparr> = Some NotFinite \<and>
   duration_multi_site \<lparr>txPackets = 1, rxPackets = 1, lostPackets = 0, rxBytes = 1024,
       timeFirstTxPacket = Seconds 2, timeLastRxPacket = Seconds 2\<rparr> = 1 / 10 ^ 9 \<and>
   throughput_multi_site \<lparr>txPackets = 1, rxPackets = 1, lostPackets = 0, rxBytes = 1024,
       timeFirstTxPacket = Seconds 2, timeLastRxPacket = Seconds 2\<rparr> = Some (Finite 8192000)"
  by (simp add: duration_qos_def throughput_qos_def duration_multi_hop_def
      throughput_multi_hop_def duration_multi_site_def throughput_multi_site_def
      fdiv_def fdiv2_def Seconds_def GetSeconds_def)

section \<open>Traffic generators\<close>

subsection \<open>Stopping\<close>





text \<open>The three handlers, for either class.\<close>

lemma invoke_HStart:
  "invoke HStart w =
     invoke HSend (w\<lparr>sim_app := (sim_app w)\<lparr>m_running := True, m_packetsSent := 0\<rparr>\<rparr>)"
  by (simp add: invoke_def VoipApplication_StartApplication_def
      DDoSAttacker_StartApplication_def split: GeneratorKind.splits)
















subsection \<open>Pacing and packet count\<close>

lemma tNext_update [simp]:
  "tNext (g\<lparr>m_running := r\<rparr>) = tNext g"
  "tNext (g\<lparr>m_packetsSent := c\<rparr>) = tNext g"
  "tNext (g\<lparr>m_sendEvent := ev\<rparr>) = tNext g"
  by (simp_all add: tNext_def)

lemma count_less_iff:
  assumes "j < unat (n :: 32 word)"
  shows "(of_nat (Suc j) :: 32 word) < n \<longleftrightarrow> Suc j < unat n"
proof -
  have "Suc j \<le> unat n" using assms by simp
  then have "unat (of_nat (Suc j) :: 32 word) = Suc j" by (rule le_unat_uoi)
  then show ?thesis by (simp add: word_less_nat_alt)
qed

lemma one_less_iff: "(1 :: 32 word) < n \<longleftrightarrow> 1 < unat n"
  by (simp add: word_less_nat_alt)

lemma send_sending:
  assumes app: "sim_app w = g\<lparr>m_running := True, m_packetsSent := of_nat j, m_sendEvent := ev\<rparr>"
    and tr: "sim_trace w = map (\<lambda>i. Sent (ts + of_nat i * tNext g)) [0..<j]"
    and now: "sim_now w = ts + of_nat j * tNext g"
    and evs: "sim_events w = []"
    and cnt: "gen_kind g = VoipApplication \<Longrightarrow>
        ((of_nat (Suc j) :: 32 word) < m_nPackets g \<longleftrightarrow> Suc j < unat (m_nPackets g))"
  shows "sending g ts (Suc j) (invoke HSend w)"
proof (cases "more_to_send g (Suc j)")
  case True
  have succ: "of_nat j + (1 :: 32 word) = of_nat (Suc j)" by simp
  from True have sched: "invoke HSend w =
      w\<lparr>sim_trace := sim_trace w @ [Sent (sim_now w)],
        sim_events := [\<lparr>ev_time = sim_now w + tNext g, ev_uid = sim_uid w, ev_handler = HSend\<rparr>],
        sim_uid := Suc (sim_uid w),
        sim_app := g\<lparr>m_running := True, m_packetsSent := of_nat (Suc j),
                     m_sendEvent := Some (sim_uid w)\<rparr>\<rparr>"
    using cnt
    by (cases "gen_kind g")
       (simp_all add: invoke_def SendPacket_def SendAttackPacket_def ScheduleTx_def
          ScheduleNextPacket_def Schedule_def Let_def app evs more_to_send_def succ
          del: of_nat_Suc)
  show ?thesis
    unfolding sending_def sched using True
    by (auto simp: tr now algebra_simps)
next
  case False
  then have k: "gen_kind g = VoipApplication" and n: "\<not> Suc j < unat (m_nPackets g)"
    by (auto simp: more_to_send_def intro: GeneratorKind.exhaust)
  have succ: "of_nat j + (1 :: 32 word) = of_nat (Suc j)" by simp
  have stay: "invoke HSend w =
      w\<lparr>sim_trace := sim_trace w @ [Sent (sim_now w)],
        sim_app := g\<lparr>m_running := True, m_packetsSent := of_nat (Suc j), m_sendEvent := ev\<rparr>\<rparr>"
    using cnt[OF k] n by (simp add: invoke_def SendPacket_def Let_def app k succ del: of_nat_Suc)
  show ?thesis
    unfolding sending_def stay using False
    by (auto simp: tr now evs)
qed

lemma boot_step:
  "step (boot g ts None) =
     Some (invoke HStart \<lparr>sim_now = ts, sim_uid = Suc 0, sim_events = [], sim_app = g,
        sim_trace = []\<rparr>)"
  by (simp add: step_def boot_def Schedule_def Let_def)

lemma start_sending: "sending g ts (Suc 0) (run (Suc 0) (boot g ts None))"
proof -
  let ?w = "\<lparr>sim_now = ts, sim_uid = Suc 0, sim_events = [],
      sim_app = g\<lparr>m_running := True, m_packetsSent := 0\<rparr>, sim_trace = []\<rparr>"
  have run1: "run (Suc 0) (boot g ts None) = invoke HSend ?w"
    by (simp add: boot_step invoke_HStart)
  have "sending g ts (Suc 0) (invoke HSend ?w)"
  proof (rule send_sending[where ev = "m_sendEvent g"])
    show "sim_app ?w = g\<lparr>m_running := True, m_packetsSent := of_nat 0, m_sendEvent := m_sendEvent g\<rparr>"
      by simp
    show "sim_trace ?w = map (\<lambda>i. Sent (ts + of_nat i * tNext g)) [0..<0]" by simp
    show "sim_now ?w = ts + of_nat 0 * tNext g" by simp
    show "sim_events ?w = []" by simp
    show "(of_nat (Suc 0) :: 32 word) < m_nPackets g \<longleftrightarrow> Suc 0 < unat (m_nPackets g)"
      using one_less_iff[of "m_nPackets g"] by simp
  qed
  then show ?thesis by (simp only: run1)
qed

lemma sending_step:
  assumes "sending g ts j w" and "more_to_send g j"
  shows "\<exists>w'. step w = Some w' \<and> sending g ts (Suc j) w'"
proof -
  obtain u where evs: "sim_events w =
      [\<lparr>ev_time = ts + of_nat j * tNext g, ev_uid = u, ev_handler = HSend\<rparr>]"
    using assms by (auto simp: sending_def)
  obtain ev where app: "sim_app w = g\<lparr>m_running := True, m_packetsSent := of_nat j, m_sendEvent := ev\<rparr>"
    using assms(1) by (auto simp: sending_def)
  have tr: "sim_trace w = map (\<lambda>i. Sent (ts + of_nat i * tNext g)) [0..<j]"
    using assms(1) by (simp add: sending_def)
  let ?w1 = "w\<lparr>sim_now := ts + of_nat j * tNext g, sim_events := []\<rparr>"
  have st: "step w = Some (invoke HSend ?w1)"
    by (simp add: step_def evs Let_def)
  have "sending g ts (Suc j) (invoke HSend ?w1)"
  proof (rule send_sending[where ev = ev])
    show "sim_app ?w1 = g\<lparr>m_running := True, m_packetsSent := of_nat j, m_sendEvent := ev\<rparr>"
      by (simp add: app)
    show "sim_trace ?w1 = map (\<lambda>i. Sent (ts + of_nat i * tNext g)) [0..<j]" by (simp add: tr)
    show "sim_now ?w1 = ts + of_nat j * tNext g" by simp
    show "sim_events ?w1 = []" by simp
    show "(of_nat (Suc j) :: 32 word) < m_nPackets g \<longleftrightarrow> Suc j < unat (m_nPackets g)"
      if "gen_kind g = VoipApplication"
      using assms(2) that by (intro count_less_iff) (simp add: more_to_send_def)
  qed
  then show ?thesis using st by simp
qed

lemma sending_done:
  assumes "sending g ts j w" and "\<not> more_to_send g j"
  shows "step w = None"
  using assms by (simp add: sending_def step_def)

lemma run_Suc_end:
  "run (Suc k) w = (case step (run k w) of None \<Rightarrow> run k w | Some w' \<Rightarrow> w')"
proof (induction k arbitrary: w)
  case 0
  show ?case by (simp split: option.splits)
next
  case (Suc k)
  show ?case
  proof (cases "step w")
    case None
    then have "run (Suc k) w = w" "run (Suc (Suc k)) w = w" by simp_all
    then show ?thesis using None by simp
  next
    case (Some w')
    have r: "run (Suc k) w = run k w'" using Some by simp
    have "run (Suc (Suc k)) w = run (Suc k) w'" using Some by simp
    also have "\<dots> = (case step (run k w') of None \<Rightarrow> run k w' | Some w'' \<Rightarrow> w'')"
      by (rule Suc.IH)
    finally show ?thesis by (simp only: r)
  qed
qed

lemma run_sending:
  "sending g ts (sends_after g (Suc k)) (run (Suc k) (boot g ts None))"
proof (induction k)
  case 0
  have "sends_after g (Suc 0) = Suc 0"
    by (simp add: sends_after_def split: GeneratorKind.splits)
  then show ?case using start_sending[of g ts] by simp
next
  case (Suc k)
  let ?j = "sends_after g (Suc k)"
  let ?w = "run (Suc k) (boot g ts None)"
  show ?case
  proof (cases "more_to_send g ?j")
    case True
    obtain w' where st: "step ?w = Some w'" and s': "sending g ts (Suc ?j) w'"
      using sending_step[OF Suc.IH True] by blast
    have "sends_after g (Suc (Suc k)) = Suc ?j"
      using True by (auto simp: sends_after_def more_to_send_def split: GeneratorKind.splits)
    moreover have "run (Suc (Suc k)) (boot g ts None) = w'"
      using st by (simp only: run_Suc_end[of "Suc k"]) simp
    ultimately show ?thesis using s' by simp
  next
    case False
    have st: "step ?w = None" by (rule sending_done[OF Suc.IH False])
    have "sends_after g (Suc (Suc k)) = ?j"
      using False by (auto simp: sends_after_def more_to_send_def split: GeneratorKind.splits)
    moreover have "run (Suc (Suc k)) (boot g ts None) = ?w"
      using st by (simp only: run_Suc_end[of "Suc k"]) simp
    ultimately show ?thesis using Suc.IH by simp
  qed
qed

lemma run_trace:
  "sim_trace (run k (boot g ts None)) =
     map (\<lambda>i. Sent (ts + of_nat i * tNext g)) [0..<sends_after g k]"
proof (cases k)
  case 0
  have "sends_after g 0 = 0" by (simp add: sends_after_def split: GeneratorKind.splits)
  then show ?thesis using 0 by (simp add: boot_def Schedule_def Let_def)
next
  case (Suc n)
  then show ?thesis using run_sending[of g ts n] by (simp add: sending_def)
qed






text \<open>
  C10. The VoIP generator sends its first packet on start whatever the packet count, and
  compares the count only after a send: started and not stopped, it ends with no event
  pending after exactly \<open>max 1 m_nPackets\<close> sends, that is one packet for a count of 0
  and \<open>n\<close> packets for a count \<open>n \<ge> 1\<close>. (A count above 1 needs a non-zero rate for the
  pacing interval to be a time.)
\<close>

theorem voip_packet_count:
  assumes "gen_kind g = VoipApplication"
    and "1 < unat (m_nPackets g) \<longrightarrow> m_dataRate g \<noteq> 0"
    and "max 1 (unat (m_nPackets g)) \<le> k"
  shows "sim_trace (run 1 (boot g ts None)) = [Sent ts] \<and>
         list_all is_Sent (sim_trace (run k (boot g ts None))) \<and>
         length (sim_trace (run k (boot g ts None))) = max 1 (unat (m_nPackets g)) \<and>
         sim_events (run k (boot g ts None)) = []"
proof -
  have s1: "sends_after g 1 = 1" using assms(1) by (simp add: sends_after_def)
  have sk: "sends_after g k = max 1 (unat (m_nPackets g))"
    using assms(1,3) by (simp add: sends_after_def)
  obtain n where k: "k = Suc n" using assms(3) by (cases k) auto
  have "\<not> more_to_send g (sends_after g k)" using assms(1) by (auto simp: more_to_send_def sk)
  then have ev: "sim_events (run k (boot g ts None)) = []"
    using run_sending[of g ts n] by (simp add: sending_def k)
  have "sim_trace (run 1 (boot g ts None)) = [Sent ts]"
    by (simp only: run_trace s1) simp
  then show ?thesis using ev by (simp add: run_trace sk list_all_iff)
qed

theorem voip_packet_count_witness:
  "gen_kind (Voip_Setup 160 0 64000 VoipApplication_new) = VoipApplication \<and>
   length (sim_trace (run 5 (boot (Voip_Setup 160 0 64000 VoipApplication_new) (Seconds 2) None))) = 1 \<and>
   sim_events (run 5 (boot (Voip_Setup 160 0 64000 VoipApplication_new) (Seconds 2) None)) = [] \<and>
   (1 < unat (m_nPackets (Voip_Setup 160 3 64000 VoipApplication_new)) \<and>
    m_dataRate (Voip_Setup 160 3 64000 VoipApplication_new) \<noteq> 0) \<and>
   length (sim_trace (run 5 (boot (Voip_Setup 160 3 64000 VoipApplication_new) (Seconds 2) None))) = 3"
proof -
  let ?g0 = "Voip_Setup 160 0 64000 VoipApplication_new"
  let ?g3 = "Voip_Setup 160 3 64000 VoipApplication_new"
  have k0: "gen_kind ?g0 = VoipApplication" and k3: "gen_kind ?g3 = VoipApplication"
    by (simp_all add: Voip_Setup_def VoipApplication_new_def)
  have r0: "1 < unat (m_nPackets ?g0) \<longrightarrow> m_dataRate ?g0 \<noteq> 0"
    and r3: "1 < unat (m_nPackets ?g3) \<longrightarrow> m_dataRate ?g3 \<noteq> 0"
    and r3': "1 < unat (m_nPackets ?g3) \<and> m_dataRate ?g3 \<noteq> 0"
    by (simp_all add: Voip_Setup_def)
  have m0: "max 1 (unat (m_nPackets ?g0)) \<le> 5" and m3: "max 1 (unat (m_nPackets ?g3)) \<le> 5"
    by (simp_all add: Voip_Setup_def)
  have v0: "max 1 (unat (m_nPackets ?g0)) = 1" and v3: "max 1 (unat (m_nPackets ?g3)) = 3"
    by (simp_all add: Voip_Setup_def)
  show ?thesis
    using voip_packet_count[OF k0 r0 m0, of "Seconds 2"]
      voip_packet_count[OF k3 r3 m3, of "Seconds 2"] k0 r3'
    by (simp only: v0 v3) simp
qed

end
